theory Spec2Isabelle
  imports Main "HOL-Library.Char_ord" "HOL-Library.List_Lexorder" "HOL-Library.Multiset"
begin

section \<open>Strings\<close>

text \<open>
  A JavaScript string is a sequence of UTF-16 code units. The model covers the strings
  whose code units are all below 256 (Latin-1 text): a \<^typ>\<open>char\<close> is the code unit with
  that number. \<open>toLowerCase\<close>, \<open>trim\<close> and the regular expression class \<open>\\s\<close> are given
  for this range.
\<close>

definition is_space :: "char \<Rightarrow> bool" where
  \<comment> \<open>WhiteSpace and LineTerminator of ECMAScript below U+0100: TAB, LF, VT, FF, CR, SP, NBSP.\<close>
  "is_space c = (let n = (of_char c :: nat) in (9 \<le> n \<and> n \<le> 13) \<or> n = 32 \<or> n = 160)"

definition to_lower :: "char \<Rightarrow> char" where
  \<comment> \<open>A-Z and the capital letters U+00C0 to U+00DE (U+00D7, the multiplication sign, apart).\<close>
  "to_lower c = (let n = (of_char c :: nat) in
     if (65 \<le> n \<and> n \<le> 90) \<or> (192 \<le> n \<and> n \<le> 222 \<and> n \<noteq> 215)
     then char_of (n + 32) else c)"

definition toLowerCase :: "string \<Rightarrow> string" where
  "toLowerCase s = map to_lower s"

definition trim :: "string \<Rightarrow> string" where
  "trim s = rev (dropWhile is_space (rev (dropWhile is_space s)))"

text \<open>
  \<open>Array.prototype.sort()\<close> without a comparator orders strings by their code units;
  on lists of strings this is \<^const>\<open>sort\<close> for the lexicographic order of lists over the
  order of characters by code.
\<close>

definition js_sort :: "string list \<Rightarrow> string list" where
  "js_sort xs = sort xs"

text \<open>
  \<open>[...new Set(xs)]\<close>: a Set keeps the first occurrence of each value, in insertion order.
\<close>

primrec set_spread :: "'a list \<Rightarrow> 'a list" where
  "set_spread [] = []"
| "set_spread (x # xs) = x # filter (\<lambda>y. y \<noteq> x) (set_spread xs)"

section \<open>Regular expressions of \<open>app.constants.ts\<close>\<close>

text \<open>
  The two patterns of \<open>VALIDATION_RULES\<close> are sequences of three kinds of item: a literal
  character, the greedy repetition \<open>[^\\s@]+\<close>, and the end anchor \<open>$\<close>. \<open>match_here\<close> is a
  backtracking matcher in the priority order of ECMAScript: a greedy \<open>+\<close> first tries to
  take one more character and gives it back only when the rest of the pattern fails. It
  returns the input left after the first successful match.
\<close>

datatype item = Lit char | NotSpaceAtPlus | Eol

definition not_space_at :: "char \<Rightarrow> bool" where
  "not_space_at c = (\<not> is_space c \<and> c \<noteq> CHR ''@'')"

fun match_here :: "item list \<Rightarrow> string \<Rightarrow> string option" where
  "match_here [] s = Some s"
| "match_here (Lit c # p) [] = None"
| "match_here (Lit c # p) (x # xs) = (if x = c then match_here p xs else None)"
| "match_here (Eol # p) s = (if s = [] then match_here p s else None)"
| "match_here (NotSpaceAtPlus # p) [] = None"
| "match_here (NotSpaceAtPlus # p) (x # xs) =
     (if not_space_at x
      then (case match_here (NotSpaceAtPlus # p) xs of
              Some r \<Rightarrow> Some r
            | None \<Rightarrow> match_here p xs)
      else None)"

definition EMAIL_REGEX :: "item list" where
  \<comment> \<open>\<open>/^[^\\s@]+@[^\\s@]+\\.[^\\s@]+$/\<close>; the leading \<open>^\<close> (no \<open>m\<close> flag) allows a match at index 0 only.\<close>
  "EMAIL_REGEX = [NotSpaceAtPlus, Lit CHR ''@'', NotSpaceAtPlus, Lit CHR ''.'', NotSpaceAtPlus, Eol]"

definition MENTION_REGEX :: "item list" where
  \<comment> \<open>\<open>/@([^\\s@]+@[^\\s@]+\\.[^\\s@]+)/g\<close>; group 1 is all of the match but its first character.\<close>
  "MENTION_REGEX = [Lit CHR ''@'', NotSpaceAtPlus, Lit CHR ''@'', NotSpaceAtPlus, Lit CHR ''.'', NotSpaceAtPlus]"

definition regex_test :: "item list \<Rightarrow> string \<Rightarrow> bool" where
  \<comment> \<open>\<open>RegExp.prototype.test\<close> for a pattern anchored at the start.\<close>
  "regex_test p s = (match_here p s \<noteq> None)"

text \<open>
  \<open>String.prototype.matchAll\<close> with a global pattern whose first item is a literal: the
  matches from left to right, each search starting where the last match ended. The list
  holds group 1 of each match. A match of such a pattern takes at least one character,
  so the search always resumes in a shorter input.
\<close>

function match_all_group1 :: "item list \<Rightarrow> string \<Rightarrow> string list" where
  "match_all_group1 p [] = []"
| "match_all_group1 p (x # xs) =
     (case match_here p (x # xs) of
        None \<Rightarrow> match_all_group1 p xs
      | Some r \<Rightarrow>
          (if length r \<le> length xs
           then take (length xs - length r) xs # match_all_group1 p r
           else match_all_group1 p xs))"
  by pat_completeness auto
termination
  by (relation "measure (\<lambda>(p, s). length s)") auto

section \<open>\<open>EmailUtils\<close>\<close>

definition isValidEmail :: "string \<Rightarrow> bool" where
  "isValidEmail email = regex_test EMAIL_REGEX email"

definition removeDuplicateEmails :: "string list \<Rightarrow> string list" where
  "removeDuplicateEmails emails = set_spread emails"

definition filterValidEmails :: "string list \<Rightarrow> string list" where
  "filterValidEmails emails =
     (let uniqueEmails = removeDuplicateEmails emails
      in filter (\<lambda>email. isValidEmail email) uniqueEmails)"

definition extractMentionedEmails :: "string \<Rightarrow> string list" where
  "extractMentionedEmails notification =
     (if notification = [] then []
      else removeDuplicateEmails
             (filter (\<lambda>m. m \<noteq> [] \<and> isValidEmail m) (match_all_group1 MENTION_REGEX notification)))"

definition normalizeEmail :: "string \<Rightarrow> string" where
  "normalizeEmail email = toLowerCase (trim email)"

definition normalizeEmails :: "string list \<Rightarrow> string list" where
  "normalizeEmails emails = removeDuplicateEmails (map normalizeEmail emails)"

section \<open>Error messages and exceptions\<close>

definition STUDENT_NOT_FOUND :: string where "STUDENT_NOT_FOUND = ''Student not found''"
definition TEACHER_NOT_FOUND :: string where "TEACHER_NOT_FOUND = ''Teacher not found''"
definition INVALID_EMAIL_FORMAT :: string where "INVALID_EMAIL_FORMAT = ''Invalid email format''"
definition EMPTY_TEACHER_LIST :: string where "EMPTY_TEACHER_LIST = ''Teacher list cannot be empty''"
definition EMPTY_STUDENT_LIST :: string where "EMPTY_STUDENT_LIST = ''Student list cannot be empty''"
definition DATABASE_ERROR :: string where "DATABASE_ERROR = ''Database operation failed''"

text \<open>
  The exceptions the services throw, each with its message. \<open>Error\<close> is the plain
  JavaScript error of \<open>StudentService\<close>; \<open>TypeError\<close> is what the runtime raises when an
  undefined value is iterated.
\<close>

datatype error =
    BadRequestException string
  | NotFoundException string
  | Error string
  | TypeError

section \<open>Entities and the store\<close>

record student =
  sid :: nat
  email :: string
  suspended :: bool

text \<open>
  The Teacher entity: the generated id, the email (a unique column), and the many-to-many
  collection \<open>students\<close> over the join table \<open>teacher_students\<close>, which the service reads
  after loading it with \<open>relations: ['students']\<close>.
\<close>

record teacher =
  tid :: nat
  temail :: string
  tstudents :: "student list"

text \<open>
  The database behind the two TypeORM repositories: the rows of \<open>students\<close>, the rows of
  the teachers' table as pairs of id and email, and the join table of the many-to-many
  relation as pairs of teacher id and student id. Rows are compared with the query's
  strings by equality of strings.
\<close>

record store =
  student_table :: "student list"
  teacher_table :: "(nat \<times> string) list"
  teacher_students :: "(nat \<times> nat) list"

definition load_teacher :: "store \<Rightarrow> nat \<times> string \<Rightarrow> teacher" where
  \<comment> \<open>a teacher row with its relation \<open>students\<close> loaded through the join table\<close>
  "load_teacher st row =
     \<lparr>tid = fst row, temail = snd row,
      tstudents = filter (\<lambda>s. (fst row, sid s) \<in> set (teacher_students st)) (student_table st)\<rparr>"

definition teacher_findOne :: "store \<Rightarrow> string \<Rightarrow> teacher option" where
  \<comment> \<open>\<open>teacherRepository.findOne({ where: { email }, relations: ['students'] })\<close>\<close>
  "teacher_findOne st e =
     (case filter (\<lambda>row. snd row = e) (teacher_table st) of
        [] \<Rightarrow> None
      | row # _ \<Rightarrow> Some (load_teacher st row))"

definition teacher_find_In :: "store \<Rightarrow> string list \<Rightarrow> teacher list" where
  \<comment> \<open>\<open>teacherRepository.find({ where: { email: In(emails) }, relations: ['students'] })\<close>\<close>
  "teacher_find_In st emails =
     map (load_teacher st) (filter (\<lambda>row. snd row \<in> set emails) (teacher_table st))"

definition teacher_save :: "store \<Rightarrow> teacher \<Rightarrow> store" where
  \<comment> \<open>\<open>teacherRepository.save(teacher)\<close>: the join rows of this teacher become those of the
      given collection; rows of students no longer in it go, missing ones are inserted.\<close>
  "teacher_save st t =
     (let links = teacher_students st;
          ids = map sid (tstudents t);
          kept = filter (\<lambda>l. fst l \<noteq> tid t \<or> snd l \<in> set ids) links;
          inserted = map (\<lambda>j. (tid t, j)) (filter (\<lambda>j. (tid t, j) \<notin> set links) (remdups ids))
      in st\<lparr>teacher_students := kept @ inserted\<rparr>)"

definition student_find_In :: "store \<Rightarrow> string list \<Rightarrow> student list" where
  \<comment> \<open>\<open>studentRepository.find({ where: { email: In(emails) } })\<close>\<close>
  "student_find_In st emails = filter (\<lambda>s. email s \<in> set emails) (student_table st)"

definition next_id :: "student list \<Rightarrow> nat" where
  \<comment> \<open>\<open>@PrimaryGeneratedColumn()\<close>: an id above every id of the table\<close>
  "next_id rows = Suc (fold max (map sid rows) 0)"

definition student_save_new :: "store \<Rightarrow> string list \<Rightarrow> student list \<times> store" where
  \<comment> \<open>\<open>studentRepository.save(newEmails.map((email) => create({ email, suspended: false })))\<close>\<close>
  "student_save_new st emails =
     (let n = next_id (student_table st);
          saved = map (\<lambda>(i, e). \<lparr>sid = i, email = e, suspended = False\<rparr>)
                      (zip [n ..< n + length emails] emails)
      in (saved, st\<lparr>student_table := student_table st @ saved\<rparr>))"

definition student_update_suspended :: "store \<Rightarrow> string \<Rightarrow> nat \<times> store" where
  \<comment> \<open>\<open>studentRepository.update({ email }, { suspended: true })\<close>; \<open>affected\<close> counts the rows
      the criterion matches\<close>
  "student_update_suspended st e =
     (length (filter (\<lambda>s. email s = e) (student_table st)),
      st\<lparr>student_table :=
           map (\<lambda>s. if email s = e then s\<lparr>suspended := True\<rparr> else s) (student_table st)\<rparr>)"

text \<open>
  \<open>bulkCreateStudents\<close> handles a rejection of its repository calls itself (its
  \<open>try\<close>/\<open>catch\<close>), so it takes the outcome of those calls as an argument: both succeed, the
  look-up of existing rows rejects, or the batch \<open>save\<close> rejects (and then persists
  nothing). The other repository calls are modelled as succeeding.
\<close>

datatype repo_fault = NoFault | FindRejects | SaveRejects

section \<open>\<open>StudentService\<close>\<close>

record batch_result =
  successful :: "student list"
  failed :: "(string \<times> string) list"
  totalProcessed :: nat

definition findStudentsByEmails :: "store \<Rightarrow> string list \<Rightarrow> student list" where
  "findStudentsByEmails st emails =
     (if emails = [] then []
      else let validEmails = filterValidEmails emails in
        if validEmails = [] then []
        else let normalizedEmails = normalizeEmails validEmails
             in student_find_In st normalizedEmails)"

definition bulkCreateStudents ::
  "repo_fault \<Rightarrow> store \<Rightarrow> string list \<Rightarrow> batch_result \<times> store" where
  "bulkCreateStudents fault st emails =
     (let result = \<lparr>successful = [], failed = [], totalProcessed = length emails\<rparr> in
      if emails = [] then (result, st)
      else
        let validEmails = filterValidEmails emails;
            invalidEmails = filter (\<lambda>email. \<not> isValidEmail email) emails;
            result = result\<lparr>failed := failed result @
                       map (\<lambda>email. (email, INVALID_EMAIL_FORMAT)) invalidEmails\<rparr>
        in
        if validEmails = [] then (result, st)
        else
          let normalizedEmails = normalizeEmails validEmails;
              catch = (\<lambda>result. result\<lparr>failed := failed result @
                         map (\<lambda>email. (email, DATABASE_ERROR)) normalizedEmails\<rparr>)
          in
          if fault = FindRejects then (catch result, st)
          else
            let existingStudents = findStudentsByEmails st normalizedEmails;
                existingEmailsSet = set (map email existingStudents);
                result = result\<lparr>successful := successful result @ existingStudents\<rparr>;
                newEmails = filter (\<lambda>email. email \<notin> existingEmailsSet) normalizedEmails
            in
            if newEmails \<noteq> [] then
              (if fault = SaveRejects then (catch result, st)
               else
                 let (savedStudents, st') = student_save_new st newEmails
                 in (result\<lparr>successful := successful result @ savedStudents\<rparr>, st'))
            else (result, st))"

definition suspendStudent :: "store \<Rightarrow> string \<Rightarrow> error + store" where
  "suspendStudent st e =
     (let normalizedEmail = normalizeEmail e in
      if \<not> isValidEmail normalizedEmail then Inl (Error INVALID_EMAIL_FORMAT)
      else
        let (affected, st') = student_update_suspended st normalizedEmail in
        if affected = 0 then Inl (NotFoundException STUDENT_NOT_FOUND)
        else Inr st')"

definition getStudentsByEmails :: "store \<Rightarrow> string list \<Rightarrow> bool \<Rightarrow> student list" where
  "getStudentsByEmails st emails includeSuspended =
     (if emails = [] then []
      else let validEmails = filterValidEmails emails in
        if validEmails = [] then []
        else
          let normalizedEmails = normalizeEmails validEmails;
              rows = filter (\<lambda>s. email s \<in> set normalizedEmails) (student_table st);
              rows = (if \<not> includeSuspended then filter (\<lambda>s. suspended s = False) rows else rows)
          in sort_key email rows)"

section \<open>\<open>TeacherService\<close>\<close>

definition findTeacherByEmail :: "store \<Rightarrow> string \<Rightarrow> error + teacher option" where
  "findTeacherByEmail st e =
     (let normalizedEmail = normalizeEmail e in
      if \<not> isValidEmail normalizedEmail then Inl (BadRequestException INVALID_EMAIL_FORMAT)
      else Inr (teacher_findOne st normalizedEmail))"

definition registerStudentsToTeacher ::
  "repo_fault \<Rightarrow> store \<Rightarrow> string \<Rightarrow> string list \<Rightarrow> error + store" where
  "registerStudentsToTeacher fault st teacherEmail studentEmails =
     (if studentEmails = [] then Inl (BadRequestException EMPTY_STUDENT_LIST)
      else
        let normalizedTeacherEmail = normalizeEmail teacherEmail in
        case findTeacherByEmail st normalizedTeacherEmail of
          Inl e \<Rightarrow> Inl e
        | Inr None \<Rightarrow> Inl (NotFoundException TEACHER_NOT_FOUND)
        | Inr (Some t) \<Rightarrow>
            let validStudentEmails = filterValidEmails studentEmails in
            if validStudentEmails = [] then Inl (BadRequestException INVALID_EMAIL_FORMAT)
            else
              let (studentsResult, st') = bulkCreateStudents fault st validStudentEmails;
                  students = successful studentsResult
              in
              if students = [] then Inr st'
              else
                let existingStudentIds = set (map sid (tstudents t));
                    newStudents = filter (\<lambda>s. sid s \<notin> existingStudentIds) students
                in
                if newStudents = [] then Inr st'
                else
                  let updatedTeacher = t\<lparr>tstudents := tstudents t @ newStudents\<rparr>
                  in Inr (teacher_save st' updatedTeacher))"

definition getTeacherStudents :: "store \<Rightarrow> string \<Rightarrow> error + string list" where
  "getTeacherStudents st teacherEmail =
     (case findTeacherByEmail st teacherEmail of
        Inl e \<Rightarrow> Inl e
      | Inr None \<Rightarrow> Inl (NotFoundException TEACHER_NOT_FOUND)
      | Inr (Some t) \<Rightarrow>
          let activeStudentEmails = map email (filter (\<lambda>s. \<not> suspended s) (tstudents t))
          in Inr (js_sort activeStudentEmails))"

definition getCommonStudents :: "store \<Rightarrow> string list \<Rightarrow> error + string list" where
  "getCommonStudents st teacherEmails =
     (if teacherEmails = [] then Inl (BadRequestException EMPTY_TEACHER_LIST)
      else
        let validTeacherEmails = filterValidEmails teacherEmails in
        if validTeacherEmails = [] then Inl (BadRequestException INVALID_EMAIL_FORMAT)
        else
          let normalizedTeacherEmails = normalizeEmails validTeacherEmails;
              teachers = teacher_find_In st normalizedTeacherEmails
          in
          if length teachers \<noteq> length normalizedTeacherEmails then Inr []
          else
            case teachers of
              [t] \<Rightarrow> Inr (js_sort (map email (filter (\<lambda>s. \<not> suspended s) (tstudents t))))
            | _ \<Rightarrow>
              let studentEmailSets =
                    map (\<lambda>t. set_spread (map email (filter (\<lambda>s. \<not> suspended s) (tstudents t))))
                        teachers
              in
              (case studentEmailSets of
                 [] \<Rightarrow> Inl TypeError
               | firstSet # others \<Rightarrow>
                   let commonStudentEmails =
                         filter (\<lambda>e. list_all (\<lambda>s. e \<in> set s) others) firstSet
                   in Inr (js_sort commonStudentEmails)))"

definition getNotificationRecipients :: "store \<Rightarrow> string \<Rightarrow> string \<Rightarrow> error + string list" where
  "getNotificationRecipients st teacherEmail notification =
     (let normalizedTeacherEmail = normalizeEmail teacherEmail;
          registeredStudents =
            (case getTeacherStudents st normalizedTeacherEmail of
               Inl _ \<Rightarrow> []
             | Inr r \<Rightarrow> r);
          mentionedEmails = extractMentionedEmails notification;
          mentionedActiveStudents =
            (if mentionedEmails \<noteq> []
             then map email (getStudentsByEmails st mentionedEmails False)
             else []);
          allRecipientsSet = set_spread (registeredStudents @ mentionedActiveStudents);
          recipients = js_sort allRecipientsSet
      in Inr recipients)"

section \<open>Notions used in the statements\<close>

text \<open>The emails of the students of the table that are not suspended.\<close>

definition active_emails :: "store \<Rightarrow> string set" where
  "active_emails st = email ` {s \<in> set (student_table st). \<not> suspended s}"

text \<open>
  \<open>newEmails\<close> of \<open>bulkCreateStudents\<close> for the input \<open>xs\<close>: the normalised valid entries
  that no row of the table has.
\<close>

definition new_emails :: "store \<Rightarrow> string list \<Rightarrow> string list" where
  "new_emails st xs =
     filter (\<lambda>e. e \<notin> email ` set (student_table st)) (normalizeEmails (filterValidEmails xs))"

text \<open>
  A store to run the operations on: an active and a suspended student, both registered
  to both of two teachers.
\<close>

definition example_store :: store where
  "example_store =
     \<lparr>student_table = [\<lparr>sid = 1, email = ''a@b.c'', suspended = False\<rparr>,
                        \<lparr>sid = 2, email = ''z@b.c'', suspended = True\<rparr>],
      teacher_table = [(1, ''t@x.y''), (2, ''u@x.y'')],
      teacher_students = [(1, 1), (1, 2), (2, 1), (2, 2)]\<rparr>"

section \<open>Characters, patterns and normalisation\<close>

lemma match_here_length: "match_here p s = Some r \<Longrightarrow> length r \<le> length s"
  by (induction p s rule: match_here.induct) (auto split: if_splits option.splits)

lemma of_char_to_lower:
  "(of_char (to_lower c) :: nat) =
     (if (65 \<le> (of_char c :: nat) \<and> (of_char c :: nat) \<le> 90) \<or> (192 \<le> (of_char c :: nat) \<and> (of_char c :: nat) \<le> 222 \<and> (of_char c :: nat) \<noteq> 215)
      then of_char c + 32 else of_char c)"
  unfolding to_lower_def Let_def by auto

lemma char_eq_code: "(c = d) = ((of_char c :: nat) = of_char d)"
  by simp

lemma to_lower_at [simp]: "(to_lower c = CHR ''@'') = (c = CHR ''@'')"
  by (simp add: char_eq_code[of _ "CHR ''@''"] of_char_to_lower)

lemma to_lower_dot [simp]: "(to_lower c = CHR ''.'') = (c = CHR ''.'')"
  by (simp add: char_eq_code[of _ "CHR ''.''"] of_char_to_lower)

lemma is_space_to_lower [simp]: "is_space (to_lower c) = is_space c"
  unfolding is_space_def Let_def by (auto simp: of_char_to_lower)

lemma to_lower_idem [simp]: "to_lower (to_lower c) = to_lower c"
  by (simp add: char_eq_code[of "to_lower (to_lower c)"] of_char_to_lower)

lemma not_space_at_to_lower [simp]: "not_space_at (to_lower c) = not_space_at c"
  by (simp add: not_space_at_def)

lemma match_here_to_lower:
  "\<forall>c. Lit c \<in> set p \<longrightarrow> (\<forall>x. (to_lower x = c) = (x = c)) \<Longrightarrow>
   match_here p (map to_lower s) = map_option (map to_lower) (match_here p s)"
  by (induction p s rule: match_here.induct) (auto split: option.splits)

lemma match_here_Eol: "match_here p s = Some r \<Longrightarrow> Eol \<in> set p \<Longrightarrow> r = []"
proof (induction p s rule: match_here.induct)
  case (4 p s)
  then have "match_here p [] = Some r" by (auto split: if_splits)
  then show ?case using match_here_length by fastforce
qed (auto split: if_splits option.splits)

lemma match_here_no_space:
  "match_here p s = Some r \<Longrightarrow> \<forall>c. Lit c \<in> set p \<longrightarrow> \<not> is_space c \<Longrightarrow>
   \<exists>pre. s = pre @ r \<and> (\<forall>c\<in>set pre. \<not> is_space c)"
proof (induction p s rule: match_here.induct)
  case (3 c p x xs)
  then have x: "x = c" and m: "match_here p xs = Some r" by (auto split: if_splits)
  from 3 x m obtain pre where "xs = pre @ r" "\<forall>c\<in>set pre. \<not> is_space c" by auto
  with 3(3) x have "x # xs = (x # pre) @ r \<and> (\<forall>c\<in>set (x # pre). \<not> is_space c)" by auto
  then show ?case by blast
next
  case (6 p x xs)
  then have nx: "not_space_at x" by (auto split: if_splits)
  from 6 nx have "\<exists>pre. xs = pre @ r \<and> (\<forall>c\<in>set pre. \<not> is_space c)"
    by (auto split: option.splits)
  then obtain pre where "xs = pre @ r" "\<forall>c\<in>set pre. \<not> is_space c" by auto
  with nx have "x # xs = (x # pre) @ r \<and> (\<forall>c\<in>set (x # pre). \<not> is_space c)"
    by (auto simp: not_space_at_def)
  then show ?case by blast
qed (auto split: if_splits)

lemma isValidEmail_no_space: "isValidEmail s \<Longrightarrow> \<forall>c\<in>set s. \<not> is_space c"
proof -
  assume "isValidEmail s"
  then obtain r where r: "match_here EMAIL_REGEX s = Some r"
    by (auto simp: isValidEmail_def regex_test_def)
  have "r = []" using match_here_Eol[OF r] by (simp add: EMAIL_REGEX_def)
  moreover have "\<exists>pre. s = pre @ r \<and> (\<forall>c\<in>set pre. \<not> is_space c)"
    using match_here_no_space[OF r] by (simp add: EMAIL_REGEX_def is_space_def)
  ultimately show ?thesis by auto
qed

lemma isValidEmail_toLowerCase [simp]: "isValidEmail (toLowerCase s) = isValidEmail s"
proof -
  have "match_here EMAIL_REGEX (map to_lower s) = map_option (map to_lower) (match_here EMAIL_REGEX s)"
    by (rule match_here_to_lower) (auto simp: EMAIL_REGEX_def)
  then show ?thesis by (simp add: isValidEmail_def regex_test_def toLowerCase_def)
qed

lemma dropWhile_none: "\<forall>c\<in>set s. \<not> P c \<Longrightarrow> dropWhile P s = s"
  by (cases s) auto

lemma trim_no_space: "\<forall>c\<in>set s. \<not> is_space c \<Longrightarrow> trim s = s"
  by (simp add: trim_def dropWhile_none)

lemma normalizeEmail_valid: "isValidEmail s \<Longrightarrow> normalizeEmail s = toLowerCase s"
  by (simp add: normalizeEmail_def trim_no_space isValidEmail_no_space)

lemma isValidEmail_normalizeEmail: "isValidEmail s \<Longrightarrow> isValidEmail (normalizeEmail s)"
  by (simp add: normalizeEmail_valid)

lemma trim_toLowerCase: "trim (toLowerCase s) = toLowerCase (trim s)"
  by (simp add: trim_def toLowerCase_def dropWhile_map rev_map comp_def)

lemma dropWhile_rev_dropWhile:
  "dropWhile P (rev (dropWhile P (rev (dropWhile P s)))) = rev (dropWhile P (rev (dropWhile P s)))"
proof -
  define t where "t = dropWhile P s"
  define u where "u = rev (dropWhile P (rev t))"
  have t: "t = u @ rev (takeWhile P (rev t))"
    unfolding u_def by (metis rev_append rev_rev_ident takeWhile_dropWhile_id)
  have "dropWhile P u = u"
  proof (cases u)
    case Nil
    then show ?thesis by simp
  next
    case (Cons a u')
    with t have "t = a # (u' @ rev (takeWhile P (rev t)))" by simp
    then have "t \<noteq> []" and "hd t = a" by (metis list.distinct(1), metis list.sel(1))
    then have "\<not> P a" unfolding t_def using hd_dropWhile[of P s] by auto
    with Cons show ?thesis by simp
  qed
  then show ?thesis by (simp add: u_def t_def)
qed

lemma trim_idem: "trim (trim s) = trim s"
  by (simp add: trim_def dropWhile_rev_dropWhile)

lemma normalizeEmail_idem [simp]: "normalizeEmail (normalizeEmail s) = normalizeEmail s"
  by (simp add: normalizeEmail_def trim_toLowerCase trim_idem) (simp add: toLowerCase_def)

section \<open>Sets in insertion order\<close>

lemma set_set_spread [simp]: "set (set_spread xs) = set xs"
  by (induction xs) auto

lemma distinct_set_spread [simp]: "distinct (set_spread xs)"
  by (induction xs) auto

lemma length_set_spread: "length (set_spread xs) \<le> length xs"
proof (induction xs)
  case (Cons x xs)
  have "length (filter (\<lambda>y. y \<noteq> x) (set_spread xs)) \<le> length xs"
    by (rule le_trans[OF length_filter_le Cons])
  then show ?case by simp
qed simp

lemma set_spread_distinct: "distinct xs \<Longrightarrow> set_spread xs = xs"
proof (induction xs)
  case (Cons x xs)
  then have "filter (\<lambda>y. y \<noteq> x) xs = xs" by (auto intro: filter_True)
  with Cons show ?case by simp
qed simp

lemma set_spread_filter: "set_spread (filter P xs) = filter P (set_spread xs)"
proof (induction xs)
  case (Cons x xs)
  have "filter (\<lambda>y. y \<noteq> x) (filter P (set_spread xs)) = filter P (filter (\<lambda>y. y \<noteq> x) (set_spread xs))"
    by (auto intro: filter_cong)
  moreover have "\<not> P x \<Longrightarrow> filter P (filter (\<lambda>y. y \<noteq> x) (set_spread xs)) = filter P (set_spread xs)"
    by (auto intro: filter_cong)
  ultimately show ?case using Cons by simp
qed simp

lemma set_spread_snoc:
  "set_spread (xs @ [x]) = set_spread xs @ (if x \<in> set xs then [] else [x])"
proof (induction xs)
  case (Cons a xs)
  then show ?case by auto
qed simp

section \<open>Properties of \<open>EmailUtils\<close>\<close>

lemma set_filterValidEmails [simp]: "set (filterValidEmails xs) = {e \<in> set xs. isValidEmail e}"
  by (auto simp: filterValidEmails_def removeDuplicateEmails_def)

lemma distinct_filterValidEmails [simp]: "distinct (filterValidEmails xs)"
  by (simp add: filterValidEmails_def removeDuplicateEmails_def)

lemma set_normalizeEmails [simp]: "set (normalizeEmails xs) = normalizeEmail ` set xs"
  by (simp add: normalizeEmails_def removeDuplicateEmails_def)

lemma distinct_normalizeEmails [simp]: "distinct (normalizeEmails xs)"
  by (simp add: normalizeEmails_def removeDuplicateEmails_def)

lemma length_filterValidEmails: "length (filterValidEmails xs) \<le> length xs"
proof -
  have "length (filterValidEmails xs) \<le> length (set_spread xs)"
    by (simp add: filterValidEmails_def removeDuplicateEmails_def)
  also have "\<dots> \<le> length xs" by (rule length_set_spread)
  finally show ?thesis .
qed

lemma length_normalizeEmails: "length (normalizeEmails xs) \<le> length xs"
  using length_set_spread[of "map normalizeEmail xs"]
  by (simp add: normalizeEmails_def removeDuplicateEmails_def)

lemma normalizeEmails_fixed:
  assumes "distinct xs" and "\<forall>e\<in>set xs. normalizeEmail e = e"
  shows "normalizeEmails xs = xs"
proof -
  have "map normalizeEmail xs = xs" using assms(2) by (simp add: map_idI)
  then show ?thesis using assms(1)
    by (simp add: normalizeEmails_def removeDuplicateEmails_def set_spread_distinct)
qed

lemma filterValidEmails_fixed:
  assumes "distinct xs" and "\<forall>e\<in>set xs. isValidEmail e"
  shows "filterValidEmails xs = xs"
  using assms by (simp add: filterValidEmails_def removeDuplicateEmails_def set_spread_distinct)

text \<open>The list a batch look-up works on is a fixed point of both steps.\<close>

lemma normalized_valid_fixed:
  "filterValidEmails (normalizeEmails (filterValidEmails xs)) = normalizeEmails (filterValidEmails xs)"
  "normalizeEmails (normalizeEmails ys) = normalizeEmails ys"
proof -
  show "filterValidEmails (normalizeEmails (filterValidEmails xs)) = normalizeEmails (filterValidEmails xs)"
    by (rule filterValidEmails_fixed) (auto simp: isValidEmail_normalizeEmail)
  show "normalizeEmails (normalizeEmails ys) = normalizeEmails ys"
    by (rule normalizeEmails_fixed) auto
qed

lemma filterValidEmails_Nil_iff:
  "(filterValidEmails xs = []) = (\<forall>x\<in>set xs. \<not> isValidEmail x)"
proof -
  have "(filterValidEmails xs = []) = (set (filterValidEmails xs) = {})" by (simp only: set_empty)
  then show ?thesis by auto
qed

lemma normalizeEmails_Nil_iff: "(set (normalizeEmails zs) = {}) = (zs = [])"
  by simp

lemma normalizeEmails_eq_Nil [simp]: "(normalizeEmails zs = []) = (zs = [])"
proof -
  have "(normalizeEmails zs = []) = (set (normalizeEmails zs) = {})" by (simp only: set_empty)
  then show ?thesis by simp
qed

section \<open>The repositories\<close>

lemma teacher_save_tables [simp]:
  "student_table (teacher_save st T) = student_table st"
  "teacher_table (teacher_save st T) = teacher_table st"
  by (simp_all add: teacher_save_def Let_def)

lemma teacher_save_links:
  "s \<in> set (tstudents T) \<Longrightarrow> (tid T, sid s) \<in> set (teacher_students (teacher_save st T))"
  by (auto simp: teacher_save_def Let_def)

lemma teacher_save_keeps:
  "s \<in> set (tstudents T) \<Longrightarrow> (tid T, j) \<in> set (teacher_students st) \<Longrightarrow> j = sid s \<Longrightarrow>
   (tid T, j) \<in> set (teacher_students (teacher_save st T))"
  by (auto simp: teacher_save_def Let_def)

lemma student_save_new_emails:
  "map email (fst (student_save_new st es)) = es"
proof -
  have eq: "(\<lambda>p. email (case p of (i, e) \<Rightarrow> \<lparr>sid = i, email = e, suspended = False\<rparr>)) = snd"
    by (auto simp: fun_eq_iff)
  show ?thesis
    by (simp add: student_save_new_def Let_def comp_def eq)
qed

lemma student_save_new_store:
  "snd (student_save_new st es) = st\<lparr>student_table := student_table st @ fst (student_save_new st es)\<rparr>"
  by (simp add: student_save_new_def Let_def)

lemma student_save_new_nil [simp]: "fst (student_save_new st []) = []"
  by (simp add: student_save_new_def)

section \<open>\<open>bulkCreateStudents\<close> on a validated list\<close>

lemma findStudentsByEmails_normalized:
  "findStudentsByEmails st (normalizeEmails (filterValidEmails xs))
     = student_find_In st (normalizeEmails (filterValidEmails xs))"
proof (cases "filterValidEmails xs = []")
  case True
  then show ?thesis
    by (simp add: findStudentsByEmails_def normalizeEmails_def removeDuplicateEmails_def
          student_find_In_def)
next
  case False
  then have "normalizeEmails (filterValidEmails xs) \<noteq> []"
    by (simp only: normalizeEmails_eq_Nil not_False_eq_True)
  then show ?thesis
    by (simp add: findStudentsByEmails_def Let_def normalized_valid_fixed)
qed

lemma new_emails_eq:
  "filter (\<lambda>e. e \<notin> email ` set (student_find_In st N)) N
     = filter (\<lambda>e. e \<notin> email ` set (student_table st)) N"
  by (rule filter_cong) (auto simp: student_find_In_def)

lemma filterValidEmails_idem [simp]: "filterValidEmails (filterValidEmails xs) = filterValidEmails xs"
  by (rule filterValidEmails_fixed) auto

lemma filter_invalid_filterValid [simp]:
  "filter (\<lambda>e. \<not> isValidEmail e) (filterValidEmails xs) = []"
  by (auto simp: filter_empty_conv)

lemma bulkCreateStudents_valid:
  assumes "filterValidEmails xs \<noteq> []"
  shows "successful (fst (bulkCreateStudents f st (filterValidEmails xs))) =
           (if f = FindRejects then []
            else student_find_In st (normalizeEmails (filterValidEmails xs)) @
                 (if f = SaveRejects then [] else fst (student_save_new st (new_emails st xs))))"
    and "snd (bulkCreateStudents f st (filterValidEmails xs)) =
           (if f = NoFault
            then st\<lparr>student_table := student_table st @ fst (student_save_new st (new_emails st xs))\<rparr>
            else st)"
proof -
  let ?V = "filterValidEmails xs"
  have ne: "?V \<noteq> []" by fact
  show "successful (fst (bulkCreateStudents f st ?V)) =
           (if f = FindRejects then []
            else student_find_In st (normalizeEmails ?V) @
                 (if f = SaveRejects then [] else fst (student_save_new st (new_emails st xs))))"
    using ne
    by (cases f)
       (simp_all add: bulkCreateStudents_def Let_def findStudentsByEmails_normalized new_emails_eq
          new_emails_def[symmetric] split_beta)
  show "snd (bulkCreateStudents f st ?V) =
           (if f = NoFault
            then st\<lparr>student_table := student_table st @ fst (student_save_new st (new_emails st xs))\<rparr>
            else st)"
    using ne
    by (cases f)
       (simp_all add: bulkCreateStudents_def Let_def findStudentsByEmails_normalized new_emails_eq
          new_emails_def[symmetric] split_beta student_save_new_store)
qed


text \<open>
  When the batch \<open>save\<close> rejects, the \<open>catch\<close> block records every normalised entry as
  failed, those with a row included; the rows found before stay in \<open>successful\<close>.
\<close>

lemma bulkCreateStudents_rejected_save:
  assumes "new_emails st emails \<noteq> []"
  shows "bulkCreateStudents SaveRejects st emails =
     (\<lparr>successful = student_find_In st (normalizeEmails (filterValidEmails emails)),
       failed = map (\<lambda>e. (e, INVALID_EMAIL_FORMAT)) (filter (\<lambda>e. \<not> isValidEmail e) emails) @
                map (\<lambda>e. (e, DATABASE_ERROR)) (normalizeEmails (filterValidEmails emails)),
       totalProcessed = length emails\<rparr>, st)"
proof -
  from assms have n: "normalizeEmails (filterValidEmails emails) \<noteq> []"
    by (auto simp: new_emails_def)
  then have v: "filterValidEmails emails \<noteq> []" by (simp only: normalizeEmails_eq_Nil not_False_eq_True)
  then have e: "emails \<noteq> []" by (auto simp: filterValidEmails_def removeDuplicateEmails_def)
  from assms have new: "filter (\<lambda>e. e \<notin> email ` set (student_find_In st (normalizeEmails (filterValidEmails emails))))
           (normalizeEmails (filterValidEmails emails)) \<noteq> []"
    by (simp only: new_emails_eq new_emails_def[symmetric] not_False_eq_True)
  show ?thesis
    using e v new
    by (simp add: bulkCreateStudents_def Let_def findStudentsByEmails_normalized)
qed

section \<open>Registration\<close>

lemma registerStudentsToTeacher_Inr_D:
  assumes "registerStudentsToTeacher f st t xs = Inr st1"
  shows "xs \<noteq> []" "isValidEmail (normalizeEmail t)"
    "\<exists>T. teacher_findOne st (normalizeEmail t) = Some T" "filterValidEmails xs \<noteq> []"
  using assms
  by (auto simp: registerStudentsToTeacher_def findTeacherByEmail_def Let_def
        split: if_splits sum.splits option.splits)

lemma registerStudentsToTeacher_unfold:
  assumes "xs \<noteq> []" "isValidEmail (normalizeEmail t)"
    "teacher_findOne st (normalizeEmail t) = Some T" "filterValidEmails xs \<noteq> []"
  shows "registerStudentsToTeacher f st t xs =
     (let S = successful (fst (bulkCreateStudents f st (filterValidEmails xs)));
          sb = snd (bulkCreateStudents f st (filterValidEmails xs));
          new = filter (\<lambda>s. sid s \<notin> sid ` set (tstudents T)) S
      in if S = [] \<or> new = [] then Inr sb
         else Inr (teacher_save sb (T\<lparr>tstudents := tstudents T @ new\<rparr>)))"
  using assms
  by (simp add: registerStudentsToTeacher_def findTeacherByEmail_def Let_def split_beta)

lemma teacher_findOne_row:
  assumes "teacher_findOne st e = Some T"
  obtains row where "T = load_teacher st row"
    and "\<And>st'. teacher_table st' = teacher_table st \<Longrightarrow> teacher_findOne st' e = Some (load_teacher st' row)"
  using assms by (auto simp: teacher_findOne_def split: list.splits)

section \<open>Suspension\<close>

lemma student_update_suspended_simps:
  "fst (student_update_suspended st e) = length (filter (\<lambda>s. email s = e) (student_table st))"
  "student_table (snd (student_update_suspended st e)) =
     map (\<lambda>s. if email s = e then s\<lparr>suspended := True\<rparr> else s) (student_table st)"
  by (simp_all add: student_update_suspended_def)

lemma filter_email_empty_iff:
  "(filter (\<lambda>s. email s = e) rows = []) = (e \<notin> email ` set rows)"
  by (auto simp: filter_empty_conv)

lemma suspend_rows_idem:
  "map (\<lambda>s. if email s = e then s\<lparr>suspended := True\<rparr> else s)
     (map (\<lambda>s. if email s = e then s\<lparr>suspended := True\<rparr> else s) rows)
   = map (\<lambda>s. if email s = e then s\<lparr>suspended := True\<rparr> else s) rows"
  by (induction rows) auto

lemma suspend_rows_emails:
  "email ` set (map (\<lambda>s. if email s = e then s\<lparr>suspended := True\<rparr> else s) rows) = email ` set rows"
  by (induction rows) auto

section \<open>The read projections list active students only\<close>

lemma set_js_sort [simp]: "set (js_sort xs) = set xs"
  by (simp add: js_sort_def)

lemma load_teacher_active:
  "s \<in> set (tstudents (load_teacher st row)) \<Longrightarrow> \<not> suspended s \<Longrightarrow> email s \<in> active_emails st"
  by (auto simp: load_teacher_def active_emails_def)

lemma teacher_findOne_active:
  "teacher_findOne st e = Some t \<Longrightarrow> s \<in> set (tstudents t) \<Longrightarrow> \<not> suspended s \<Longrightarrow>
   email s \<in> active_emails st"
  by (auto simp: teacher_findOne_def load_teacher_active split: list.splits)

lemma teacher_find_In_active:
  "t \<in> set (teacher_find_In st es) \<Longrightarrow> s \<in> set (tstudents t) \<Longrightarrow> \<not> suspended s \<Longrightarrow>
   email s \<in> active_emails st"
  by (auto simp: teacher_find_In_def load_teacher_active)

lemma getTeacherStudents_active:
  assumes "getTeacherStudents st t = Inr r"
  shows "set r \<subseteq> active_emails st"
proof -
  from assms obtain tt where tt: "teacher_findOne st (normalizeEmail t) = Some tt"
    and r: "r = js_sort (map email (filter (\<lambda>s. \<not> suspended s) (tstudents tt)))"
    by (auto simp: getTeacherStudents_def findTeacherByEmail_def Let_def
          split: if_splits option.splits sum.splits)
  from teacher_findOne_active[OF tt] r show ?thesis by auto
qed

lemma getCommonStudents_active:
  assumes "getCommonStudents st ts = Inr r"
  shows "set r \<subseteq> active_emails st"
proof -
  let ?N = "normalizeEmails (filterValidEmails ts)"
  let ?T = "teacher_find_In st ?N"
  show ?thesis
  proof (cases "length ?T \<noteq> length ?N")
    case True
    with assms have "r = []"
      by (auto simp: getCommonStudents_def Let_def split: if_splits)
    then show ?thesis by simp
  next
    case False
    show ?thesis
    proof (cases ?T)
      case Nil
      with assms False show ?thesis
        by (auto simp: getCommonStudents_def Let_def split: if_splits)
    next
      case (Cons t rest)
      then have tin: "t \<in> set ?T" by simp
      have "set r \<subseteq> email ` {s \<in> set (tstudents t). \<not> suspended s}"
        using assms False Cons
        by (cases rest) (auto simp: getCommonStudents_def Let_def split: if_splits)
      with teacher_find_In_active[OF tin] show ?thesis by blast
    qed
  qed
qed

lemma getStudentsByEmails_active:
  "email ` set (getStudentsByEmails st ms False) \<subseteq> active_emails st"
  by (auto simp: getStudentsByEmails_def Let_def active_emails_def)

lemma getNotificationRecipients_active:
  assumes "getNotificationRecipients st t n = Inr r"
  shows "set r \<subseteq> active_emails st"
proof -
  let ?reg = "case getTeacherStudents st (normalizeEmail t) of Inl _ \<Rightarrow> [] | Inr r \<Rightarrow> r"
  have reg: "set ?reg \<subseteq> active_emails st"
  proof (cases "getTeacherStudents st (normalizeEmail t)")
    case (Inl e)
    then show ?thesis by simp
  next
    case (Inr r')
    with getTeacherStudents_active[OF Inr] show ?thesis by simp
  qed
  from assms have "set r \<subseteq> set ?reg \<union> email ` set (getStudentsByEmails st (extractMentionedEmails n) False)"
    by (auto simp: getNotificationRecipients_def Let_def split: if_splits)
  with reg getStudentsByEmails_active[of st "extractMentionedEmails n"] show ?thesis by blast
qed

lemma suspended_not_active:
  assumes "distinct (map email (student_table st))" "s \<in> set (student_table st)" "suspended s"
  shows "email s \<notin> active_emails st"
proof
  assume "email s \<in> active_emails st"
  then obtain s' where s': "s' \<in> set (student_table st)" "\<not> suspended s'" "email s' = email s"
    by (auto simp: active_emails_def)
  from assms(1) have "inj_on email (set (student_table st))" by (simp add: distinct_map)
  with s' assms(2) have "s' = s" by (auto dest: inj_onD)
  with s' assms(3) show False by simp
qed

section \<open>Common students\<close>

lemma length_teacher_find_In:
  "length (teacher_find_In st es) = length (filter (\<lambda>row. snd row \<in> set es) (teacher_table st))"
  by (simp add: teacher_find_In_def)

lemma found_fewer_than_requested:
  assumes d: "distinct (map snd rows)" and dn: "distinct es"
    and e: "e \<in> set es" "e \<notin> snd ` set rows"
  shows "length (filter (\<lambda>row. snd row \<in> set es) rows) < length es"
proof -
  let ?F = "filter (\<lambda>row. snd row \<in> set es) rows"
  have "distinct (map snd ?F)" using d by (simp add: distinct_map_filter)
  then have "length ?F = card (set (map snd ?F))" by (metis distinct_card length_map)
  also have "set (map snd ?F) \<subseteq> set es - {e}" using e by auto
  then have "card (set (map snd ?F)) \<le> card (set es - {e})" by (simp add: card_mono)
  also have "\<dots> < card (set es)" using e(1) by (intro card_Diff1_less) simp_all
  also have "\<dots> = length es" using dn by (simp add: distinct_card)
  finally show ?thesis .
qed

text \<open>
  \<open>getCommonStudents\<close> depends on its input through two things only: whether it is empty,
  and the set of its normalised valid entries.
\<close>

lemma getCommonStudents_cong:
  assumes "(xs = []) = (ys = [])"
    and "set (normalizeEmails (filterValidEmails xs)) = set (normalizeEmails (filterValidEmails ys))"
  shows "getCommonStudents st xs = getCommonStudents st ys"
proof -
  let ?N = "normalizeEmails (filterValidEmails xs)" and ?M = "normalizeEmails (filterValidEmails ys)"
  have len: "length ?N = length ?M"
    using assms(2) by (metis distinct_card distinct_normalizeEmails)
  have find: "teacher_find_In st ?N = teacher_find_In st ?M"
    using assms(2) by (simp add: teacher_find_In_def)
  have emp: "(filterValidEmails xs = []) = (filterValidEmails ys = [])"
    using assms(2) normalizeEmails_Nil_iff[of "filterValidEmails xs"]
      normalizeEmails_Nil_iff[of "filterValidEmails ys"] by (simp only:)
  show ?thesis
    unfolding getCommonStudents_def Let_def find len using assms(1) emp by simp
qed

lemma isValidEmail_same_case:
  "toLowerCase c = toLowerCase x \<Longrightarrow> isValidEmail c = isValidEmail x"
  by (metis isValidEmail_toLowerCase)

lemma normalizeEmail_same_case:
  "toLowerCase c = toLowerCase x \<Longrightarrow> isValidEmail x \<Longrightarrow> normalizeEmail c = normalizeEmail x"
  using isValidEmail_same_case[of c x] by (simp add: normalizeEmail_valid)

lemma normalized_valid_same_case:
  assumes "\<forall>c\<in>set cs. \<exists>x\<in>set xs. toLowerCase c = toLowerCase x"
  shows "set (normalizeEmails (filterValidEmails (xs @ cs))) = set (normalizeEmails (filterValidEmails xs))"
proof -
  have "normalizeEmail c \<in> normalizeEmail ` {e \<in> set xs. isValidEmail e}"
    if c: "c \<in> set cs" "isValidEmail c" for c
  proof -
    from assms c obtain x where x: "x \<in> set xs" "toLowerCase c = toLowerCase x" by blast
    with c have "isValidEmail x" using isValidEmail_same_case by blast
    with x normalizeEmail_same_case[OF x(2)] show ?thesis by auto
  qed
  then show ?thesis by auto
qed

section \<open>Mentions\<close>

lemma extractMentionedEmails_valid: "m \<in> set (extractMentionedEmails n) \<Longrightarrow> isValidEmail m"
  by (auto simp: extractMentionedEmails_def removeDuplicateEmails_def split: if_splits)

lemma getStudentsByEmails_nil [simp]: "getStudentsByEmails st [] b = []"
  by (simp add: getStudentsByEmails_def)

lemma set_getStudentsByEmails_active:
  "set (getStudentsByEmails st ms False) =
     {s \<in> set (student_table st). \<not> suspended s \<and> email s \<in> normalizeEmail ` {m \<in> set ms. isValidEmail m}}"
  by (auto simp: getStudentsByEmails_def Let_def filterValidEmails_Nil_iff)

section \<open>Claims\<close>

text \<open>
  C2. The claim: in a text with two adjacent mentions separated only by punctuation, such
  as \<open>@a@b.c,@d@e.f\<close>, the two addresses come out separately and the punctuation is in
  neither. On the code the repetition \<open>[^\\s@]+\<close> stops only at whitespace and at \<open>@\<close>:
  the two mentions do come out separately, but the comma is the last character of the
  first address.
\<close>

theorem extractMentionedEmails_keeps_punctuation:
  "extractMentionedEmails ''@a@b.c,@d@e.f'' = [''a@b.c,'', ''d@e.f'']"
  by code_simp

text \<open>
  The notification of the repository's own test \<open>should extract and handle multiple
  mentions\<close>, which expects \<open>student2@test.com\<close> without the exclamation mark.
\<close>

lemma extractMentionedEmails_test_notification:
  "extractMentionedEmails ''Hello @student1@test.com and @student2@test.com!''
     = [''student1@test.com'', ''student2@test.com!'']"
  by code_simp

text \<open>
  C3. The claim: the outputs of \<open>filterValidEmails\<close> and of \<open>normalizeEmails\<close> are no longer
  than the input and hold no two entries that are equal after normalisation. On the code
  \<open>filterValidEmails\<close> compares the entries as they are, so two spellings of one address
  both stay in its output.
\<close>

theorem filterValidEmails_canonical_duplicates:
  "\<not> distinct (map normalizeEmail (filterValidEmails [''A@b.c'', ''a@b.c'']))"
  by code_simp

text \<open>
  The list of the repository's test \<open>should normalize duplicate input emails\<close>, which
  expects \<open>bulkCreateStudents\<close> to receive \<open>['student@test.com']\<close> alone:
  \<open>registerStudentsToTeacher\<close> hands over the output of \<open>filterValidEmails\<close>, and that is the
  three spellings.
\<close>

lemma filterValidEmails_test_case_variants:
  "filterValidEmails [''Student@Test.com'', ''student@test.com'', ''STUDENT@TEST.COM'']
     = [''Student@Test.com'', ''student@test.com'', ''STUDENT@TEST.COM'']"
  by code_simp

text \<open>
  The rest of the claim holds on the code: neither function returns more entries than it
  is given, and the output of \<open>normalizeEmails\<close> has no two entries equal after
  normalisation.
\<close>

lemma filterValid_normalizeAll_lengths:
  "length (filterValidEmails xs) \<le> length xs
   \<and> length (normalizeEmails xs) \<le> length xs
   \<and> distinct (map normalizeEmail (normalizeEmails xs))"
proof -
  have "map normalizeEmail (normalizeEmails xs) = normalizeEmails xs"
    by (rule map_idI) auto
  then show ?thesis
    by (simp add: length_filterValidEmails length_normalizeEmails)
qed

text \<open>
  C4. The claim: \<open>filterValidEmails\<close> deduplicates in first-seen order and keeps exactly the
  entries whose normalised form passes \<open>isValidEmail\<close>, so that an entry valid after
  trimming is kept. The code tests each entry as it is: an address with a space on either
  side is valid once normalised and is dropped all the same.
\<close>

theorem filterValidEmails_drops_untrimmed:
  "isValidEmail (normalizeEmail '' a@b.c '') \<and> filterValidEmails ['' a@b.c ''] = []"
  by code_simp

text \<open>
  The paths that take a single address normalise before they validate. Within one call of
  \<open>registerStudentsToTeacher\<close> the teacher's address is accepted with spaces around it, and
  a student's address written the same way is refused as invalid.
\<close>

lemma registerStudentsToTeacher_padded_addresses:
  "findTeacherByEmail example_store '' T@x.y ''
     = Inr (Some \<lparr>tid = 1, temail = ''t@x.y'',
                  tstudents = [\<lparr>sid = 1, email = ''a@b.c'', suspended = False\<rparr>,
                               \<lparr>sid = 2, email = ''z@b.c'', suspended = True\<rparr>]\<rparr>)
   \<and> registerStudentsToTeacher NoFault example_store '' T@x.y '' ['' n@b.c '']
       = Inl (BadRequestException INVALID_EMAIL_FORMAT)"
  by code_simp

text \<open>
  The first half of the claim holds on the code: the deduplication keeps the first
  occurrence of each entry, in the order of the input.
\<close>

lemma removeDuplicateEmails_first_seen:
  "removeDuplicateEmails [] = []
   \<and> removeDuplicateEmails (xs @ [x]) =
       removeDuplicateEmails xs @ (if x \<in> set xs then [] else [x])"
  by (simp add: removeDuplicateEmails_def set_spread_snoc)

text \<open>
  C1. The claim: when the creation step of \<open>bulkCreateStudents\<close> fails as a whole, exactly
  the normalised entries without a prior row are recorded in \<open>failed\<close>, and the rows found
  before the failure stay in \<open>successful\<close> and appear nowhere in \<open>failed\<close>. The \<open>catch\<close> block
  records every normalised entry: with one stored student \<open>a@b.c\<close> and one new address,
  a rejected \<open>save\<close> leaves \<open>a@b.c\<close> both in \<open>successful\<close> and in \<open>failed\<close>.
\<close>

theorem bulkCreateStudents_rejected_save_fails_existing:
  "bulkCreateStudents SaveRejects
     \<lparr>student_table = [\<lparr>sid = 1, email = ''a@b.c'', suspended = False\<rparr>],
      teacher_table = [], teacher_students = []\<rparr>
     [''a@b.c'', ''n@b.c'']
   = (\<lparr>successful = [\<lparr>sid = 1, email = ''a@b.c'', suspended = False\<rparr>],
       failed = [(''a@b.c'', ''Database operation failed''),
                 (''n@b.c'', ''Database operation failed'')],
       totalProcessed = 2\<rparr>,
      \<lparr>student_table = [\<lparr>sid = 1, email = ''a@b.c'', suspended = False\<rparr>],
       teacher_table = [], teacher_students = []\<rparr>)"
  by code_simp

text \<open>
  C5. \<open>suspendStudent\<close> of an email that passes validation once normalised (any other
  is rejected before the store is touched) fails with \<open>NotFoundException\<close> exactly when no
  student row has the normalised email. When a row has it, the call succeeds, and a
  second call on the store it returns succeeds again and changes nothing: the update
  matches on the email alone, so an already suspended student still counts as found.
\<close>

theorem suspendStudent_NotFound_iff_no_row:
  assumes "isValidEmail (normalizeEmail e)"
  shows "((suspendStudent st e = Inl (NotFoundException STUDENT_NOT_FOUND))
            = (normalizeEmail e \<notin> email ` set (student_table st)))
       \<and> (normalizeEmail e \<in> email ` set (student_table st) \<longrightarrow>
            (\<exists>st'. suspendStudent st e = Inr st' \<and> suspendStudent st' e = Inr st'
                  \<and> (\<forall>s\<in>set (student_table st'). email s = normalizeEmail e \<longrightarrow> suspended s)))"
proof -
  let ?n = "normalizeEmail e"
  let ?st' = "snd (student_update_suspended st ?n)"
  have nf: "?n \<notin> email ` set (student_table st) \<Longrightarrow>
        suspendStudent st e = Inl (NotFoundException STUDENT_NOT_FOUND)"
    using assms
    by (simp add: suspendStudent_def Let_def split_beta student_update_suspended_simps
          filter_email_empty_iff)
  have ok: "suspendStudent st' e = Inr (snd (student_update_suspended st' ?n))"
    if "?n \<in> email ` set (student_table st')" for st'
    using assms that
    by (simp add: suspendStudent_def Let_def split_beta student_update_suspended_simps
          filter_email_empty_iff)
  have again: "snd (student_update_suspended ?st' ?n) = ?st'"
    by (simp add: student_update_suspended_def suspend_rows_idem)
  have still: "?n \<in> email ` set (student_table st) \<Longrightarrow> ?n \<in> email ` set (student_table ?st')"
    by (simp only: student_update_suspended_simps suspend_rows_emails)
  have flag: "\<forall>s\<in>set (student_table ?st'). email s = ?n \<longrightarrow> suspended s"
    by (auto simp: student_update_suspended_simps)
  show ?thesis
  proof (cases "?n \<in> email ` set (student_table st)")
    case True
    have "suspendStudent st e = Inr ?st'" using ok[OF True] .
    moreover have "suspendStudent ?st' e = Inr ?st'" using ok[OF still[OF True]] again by simp
    ultimately show ?thesis using True flag by auto
  next
    case False
    then show ?thesis using nf by simp
  qed
qed

theorem suspendStudent_NotFound_iff_no_row_witness:
  "isValidEmail (normalizeEmail '' Z@b.c '')
   \<and> suspendStudent (example_store\<lparr>student_table := []\<rparr>) '' Z@b.c ''
       = Inl (NotFoundException STUDENT_NOT_FOUND)
   \<and> (\<exists>st'. suspendStudent example_store '' Z@b.c '' = Inr st'
           \<and> suspendStudent st' '' Z@b.c '' = Inr st')"
proof -
  have v: "isValidEmail (normalizeEmail '' Z@b.c '')" by code_simp
  have a: "normalizeEmail '' Z@b.c '' \<notin> email ` set (student_table (example_store\<lparr>student_table := []\<rparr>))"
    by simp
  have b: "normalizeEmail '' Z@b.c '' \<in> email ` set (student_table example_store)"
    by code_simp
  from suspendStudent_NotFound_iff_no_row[OF v, of "example_store\<lparr>student_table := []\<rparr>"] a
  have 1: "suspendStudent (example_store\<lparr>student_table := []\<rparr>) '' Z@b.c ''
       = Inl (NotFoundException STUDENT_NOT_FOUND)" by blast
  from suspendStudent_NotFound_iff_no_row[OF v, of example_store] b
  have 2: "\<exists>st'. suspendStudent example_store '' Z@b.c '' = Inr st'
           \<and> suspendStudent st' '' Z@b.c '' = Inr st'" by blast
  from v 1 2 show ?thesis by blast
qed

text \<open>
  C6. Registering the same list to the same teacher a second time succeeds and leaves the
  store as the first registration left it, so the teacher's membership set is unchanged
  and no edge is added. The first run is one that returned; the repository of students
  either answers during the first run (then whatever it does during the second) or
  rejects the same call in both runs. A first run that raises leaves the store as it was.
\<close>

theorem registerStudentsToTeacher_idempotent:
  assumes run1: "registerStudentsToTeacher f1 st t xs = Inr st1"
    and faults: "f1 = NoFault \<or> f2 = f1"
  shows "registerStudentsToTeacher f2 st1 t xs = Inr st1"
proof -
  let ?n = "normalizeEmail t"
  let ?V = "filterValidEmails xs"
  let ?N = "normalizeEmails ?V"
  note pre = registerStudentsToTeacher_Inr_D[OF run1]
  from pre(3) obtain T where T: "teacher_findOne st ?n = Some T" by blast
  from teacher_findOne_row[OF T] obtain row where row: "T = load_teacher st row"
    and row': "\<And>st'. teacher_table st' = teacher_table st \<Longrightarrow>
                 teacher_findOne st' ?n = Some (load_teacher st' row)"
    by blast
  define saved where
    "saved = (if f1 = NoFault then fst (student_save_new st (new_emails st xs)) else [])"
  define sb where "sb = st\<lparr>student_table := student_table st @ saved\<rparr>"
  define S where "S = (if f1 = FindRejects then [] else student_find_In st ?N @ saved)"
  define new where "new = filter (\<lambda>s. sid s \<notin> sid ` set (tstudents T)) S"
  have bS: "successful (fst (bulkCreateStudents f1 st ?V)) = S"
    by (cases f1) (simp_all add: bulkCreateStudents_valid[OF pre(4)] S_def saved_def)
  have bsb: "snd (bulkCreateStudents f1 st ?V) = sb"
    by (cases f1) (simp_all add: bulkCreateStudents_valid[OF pre(4)] sb_def saved_def)
  have "registerStudentsToTeacher f1 st t xs =
          (if S = [] \<or> new = [] then Inr sb
           else Inr (teacher_save sb (T\<lparr>tstudents := tstudents T @ new\<rparr>)))"
    unfolding registerStudentsToTeacher_unfold[OF pre(1) pre(2) T pre(4)] Let_def bS bsb new_def ..
  with run1 have st1: "st1 = (if S = [] \<or> new = [] then sb
                             else teacher_save sb (T\<lparr>tstudents := tstudents T @ new\<rparr>))"
    by (cases "S = [] \<or> new = []") auto
  have tab1: "student_table st1 = student_table st @ saved"
    and tt1: "teacher_table st1 = teacher_table st"
    by (simp_all add: st1 sb_def)
  have T2: "teacher_findOne st1 ?n = Some (load_teacher st1 row)" by (rule row'[OF tt1])
  have se: "map email saved = (if f1 = NoFault then new_emails st xs else [])"
    by (simp add: saved_def student_save_new_emails)
  have ns: "set (new_emails st xs) \<subseteq> set ?N" by (auto simp: new_emails_def)
  have saved_in: "set (map email saved) \<subseteq> set ?N"
    unfolding se using ns by (cases "f1 = NoFault") (simp_all del: set_normalizeEmails)
  have new2: "new_emails st1 xs = []" if "f1 = NoFault"
  proof -
    have "e \<in> email ` set (student_table st1)" if e: "e \<in> set ?N" for e
    proof (cases "e \<in> email ` set (student_table st)")
      case True
      then show ?thesis by (auto simp: tab1)
    next
      case False
      with e have "e \<in> set (new_emails st xs)" by (simp add: new_emails_def)
      then have "e \<in> set (map email saved)"
        using \<open>f1 = NoFault\<close> by (simp add: se)
      then show ?thesis by (auto simp: tab1)
    qed
    then show ?thesis by (auto simp: new_emails_def filter_empty_conv)
  qed
  from saved_in have "filter (\<lambda>s. email s \<in> set ?N) saved = saved"
    by (auto intro: filter_True)
  then have S2: "student_find_In st1 ?N = student_find_In st ?N @ saved"
    by (simp add: student_find_In_def tab1)
  have S_rows: "set S \<subseteq> set (student_table st1)"
    by (auto simp: S_def tab1 student_find_In_def)
  have T_rows: "set (tstudents T) \<subseteq> set (student_table st1)"
    by (auto simp: row load_teacher_def tab1)
  have tid_T: "tid (T\<lparr>tstudents := tstudents T @ new\<rparr>) = fst row"
    by (simp add: row load_teacher_def)
  have links_old: "(fst row, sid o') \<in> set (teacher_students st1)"
    if "o' \<in> set (tstudents T)" for o'
  proof (cases "S = [] \<or> new = []")
    case True
    with that show ?thesis by (auto simp: st1 sb_def row load_teacher_def)
  next
    case False
    have "o' \<in> set (tstudents (T\<lparr>tstudents := tstudents T @ new\<rparr>))" using that by simp
    from teacher_save_links[OF this, of sb] tid_T False show ?thesis by (simp add: st1)
  qed
  have links_new: "(fst row, sid s) \<in> set (teacher_students st1)" if "s \<in> set new" for s
  proof -
    from that have "new \<noteq> []" by auto
    moreover from that have "S \<noteq> []" unfolding new_def by auto
    ultimately have ne: "\<not> (S = [] \<or> new = [])" by simp
    have "s \<in> set (tstudents (T\<lparr>tstudents := tstudents T @ new\<rparr>))" using that by simp
    from teacher_save_links[OF this, of sb] tid_T ne show ?thesis by (simp add: st1)
  qed
  have linked: "sid s \<in> sid ` set (tstudents (load_teacher st1 row))" if s: "s \<in> set S" for s
  proof (cases "sid s \<in> sid ` set (tstudents T)")
    case True
    then obtain o' where o': "o' \<in> set (tstudents T)" "sid o' = sid s" by auto
    with links_old[OF o'(1)] T_rows have "o' \<in> set (tstudents (load_teacher st1 row))"
      by (auto simp: load_teacher_def)
    with o'(2) show ?thesis by (metis imageI)
  next
    case False
    with s have "s \<in> set new" by (simp add: new_def)
    with links_new S_rows s have "s \<in> set (tstudents (load_teacher st1 row))"
      by (auto simp: load_teacher_def)
    then show ?thesis by (rule imageI)
  qed
  have none_new: "filter (\<lambda>s. sid s \<notin> sid ` set (tstudents (load_teacher st1 row))) S' = []"
    if "set S' \<subseteq> set S" for S'
    using that linked by (auto simp: filter_empty_conv)
  have b2: "snd (bulkCreateStudents f2 st1 ?V) = st1"
    using faults by (cases f2) (auto simp: bulkCreateStudents_valid[OF pre(4)] new2)
  have "set (successful (fst (bulkCreateStudents f2 st1 ?V))) \<subseteq> set S"
    using faults
    by (cases f2) (auto simp: bulkCreateStudents_valid[OF pre(4)] new2 S2 S_def)
  from none_new[OF this] show ?thesis
    unfolding registerStudentsToTeacher_unfold[OF pre(1) pre(2) T2 pre(4)] Let_def b2
    by simp
qed

theorem registerStudentsToTeacher_idempotent_witness:
  "registerStudentsToTeacher NoFault (example_store\<lparr>teacher_students := [(1, 2)]\<rparr>)
       '' T@x.y '' [''a@b.c'', ''N@b.c'', ''bad'', ''n@b.c'']
     = Inr \<lparr>student_table = [\<lparr>sid = 1, email = ''a@b.c'', suspended = False\<rparr>,
                               \<lparr>sid = 2, email = ''z@b.c'', suspended = True\<rparr>,
                               \<lparr>sid = 3, email = ''n@b.c'', suspended = False\<rparr>],
            teacher_table = [(1, ''t@x.y''), (2, ''u@x.y'')],
            teacher_students = [(1, 2), (1, 1), (1, 3)]\<rparr>
   \<and> registerStudentsToTeacher NoFault
        \<lparr>student_table = [\<lparr>sid = 1, email = ''a@b.c'', suspended = False\<rparr>,
                           \<lparr>sid = 2, email = ''z@b.c'', suspended = True\<rparr>,
                           \<lparr>sid = 3, email = ''n@b.c'', suspended = False\<rparr>],
         teacher_table = [(1, ''t@x.y''), (2, ''u@x.y'')],
         teacher_students = [(1, 2), (1, 1), (1, 3)]\<rparr>
       '' T@x.y '' [''a@b.c'', ''N@b.c'', ''bad'', ''n@b.c'']
     = Inr \<lparr>student_table = [\<lparr>sid = 1, email = ''a@b.c'', suspended = False\<rparr>,
                               \<lparr>sid = 2, email = ''z@b.c'', suspended = True\<rparr>,
                               \<lparr>sid = 3, email = ''n@b.c'', suspended = False\<rparr>],
            teacher_table = [(1, ''t@x.y''), (2, ''u@x.y'')],
            teacher_students = [(1, 2), (1, 1), (1, 3)]\<rparr>"
proof -
  have run1: "registerStudentsToTeacher NoFault (example_store\<lparr>teacher_students := [(1, 2)]\<rparr>)
       '' T@x.y '' [''a@b.c'', ''N@b.c'', ''bad'', ''n@b.c'']
     = Inr \<lparr>student_table = [\<lparr>sid = 1, email = ''a@b.c'', suspended = False\<rparr>,
                               \<lparr>sid = 2, email = ''z@b.c'', suspended = True\<rparr>,
                               \<lparr>sid = 3, email = ''n@b.c'', suspended = False\<rparr>],
            teacher_table = [(1, ''t@x.y''), (2, ''u@x.y'')],
            teacher_students = [(1, 2), (1, 1), (1, 3)]\<rparr>"
    by code_simp
  have "NoFault = NoFault \<or> NoFault = NoFault" by simp
  from registerStudentsToTeacher_idempotent[OF run1 this] run1 show ?thesis by simp
qed

text \<open>
  C7. With teacher emails unique in the table (the entity's unique column), a non-empty
  request in which some validated, normalised email has no teacher row gets the empty
  list, not an error.
\<close>

theorem getCommonStudents_missing_teacher_empty:
  assumes "distinct (map snd (teacher_table st))"
    and "teacherEmails \<noteq> []"
    and "e \<in> set (normalizeEmails (filterValidEmails teacherEmails))"
    and "e \<notin> snd ` set (teacher_table st)"
  shows "getCommonStudents st teacherEmails = Inr []"
proof -
  let ?N = "normalizeEmails (filterValidEmails teacherEmails)"
  from assms(3) have v: "filterValidEmails teacherEmails \<noteq> []"
    by (auto simp: filterValidEmails_Nil_iff)
  have "length (teacher_find_In st ?N) < length ?N"
    unfolding length_teacher_find_In
    by (rule found_fewer_than_requested[OF assms(1) _ assms(3) assms(4)]) simp
  then have "length (teacher_find_In st ?N) \<noteq> length ?N" by simp
  with assms(2) v show ?thesis
    by (simp add: getCommonStudents_def Let_def)
qed

theorem getCommonStudents_missing_teacher_empty_witness:
  "distinct (map snd (teacher_table example_store))
   \<and> ''missing@x.y'' \<in> set (normalizeEmails (filterValidEmails [''t@x.y'', ''Missing@x.y'']))
   \<and> ''missing@x.y'' \<notin> snd ` set (teacher_table example_store)
   \<and> getCommonStudents example_store [''t@x.y'', ''Missing@x.y''] = Inr []"
proof -
  have d: "distinct (map snd (teacher_table example_store))" by code_simp
  have n: "[''t@x.y'', ''Missing@x.y''] \<noteq> []" by simp
  have e: "''missing@x.y'' \<in> set (normalizeEmails (filterValidEmails [''t@x.y'', ''Missing@x.y'']))"
    by code_simp
  have m: "''missing@x.y'' \<notin> snd ` set (teacher_table example_store)"
    by (simp add: example_store_def)
  from getCommonStudents_missing_teacher_empty[OF d n e m] d e m show ?thesis by simp
qed

text \<open>
  C8. With student emails unique in the table (\<open>@Column({ unique: true })\<close>), the email of a
  suspended student is in no list that \<open>getTeacherStudents\<close>, \<open>getCommonStudents\<close> or
  \<open>getNotificationRecipients\<close> returns, whatever the teacher, the request and the
  notification text, mentions included.
\<close>

theorem suspended_student_in_no_projection:
  assumes "distinct (map email (student_table st))"
    and "s \<in> set (student_table st)" and "suspended s"
  shows "(\<forall>r. getTeacherStudents st t = Inr r \<longrightarrow> email s \<notin> set r)
       \<and> (\<forall>r. getCommonStudents st ts = Inr r \<longrightarrow> email s \<notin> set r)
       \<and> (\<forall>r. getNotificationRecipients st t n = Inr r \<longrightarrow> email s \<notin> set r)"
  using suspended_not_active[OF assms] getTeacherStudents_active getCommonStudents_active
    getNotificationRecipients_active by blast

theorem suspended_student_in_no_projection_witness:
  "distinct (map email (student_table example_store))
   \<and> \<lparr>sid = 2, email = ''z@b.c'', suspended = True\<rparr> \<in> set (student_table example_store)
   \<and> getTeacherStudents example_store ''t@x.y'' = Inr [''a@b.c'']
   \<and> getCommonStudents example_store [''t@x.y'', ''u@x.y''] = Inr [''a@b.c'']
   \<and> getNotificationRecipients example_store ''t@x.y'' ''Hello @z@b.c'' = Inr [''a@b.c'']
   \<and> ''z@b.c'' \<notin> set [''a@b.c'']"
proof -
  let ?s = "\<lparr>sid = 2, email = ''z@b.c'', suspended = True\<rparr>"
  have d: "distinct (map email (student_table example_store))" by code_simp
  have m: "?s \<in> set (student_table example_store)" by (simp add: example_store_def)
  have s: "suspended ?s" by simp
  have 1: "getTeacherStudents example_store ''t@x.y'' = Inr [''a@b.c'']" by code_simp
  have 2: "getCommonStudents example_store [''t@x.y'', ''u@x.y''] = Inr [''a@b.c'']" by code_simp
  have 3: "getNotificationRecipients example_store ''t@x.y'' ''Hello @z@b.c'' = Inr [''a@b.c'']"
    by code_simp
  from suspended_student_in_no_projection[OF d m s, of "''t@x.y''" "[''t@x.y'', ''u@x.y'']" "''Hello @z@b.c''"] 3
  have "email ?s \<notin> set [''a@b.c'']" by blast
  then have "''z@b.c'' \<notin> set [''a@b.c'']" by simp
  with d m 1 2 3 show ?thesis by blast
qed

text \<open>
  C9. \<open>getCommonStudents\<close> returns the same result for every permutation of its input, and
  the same result when copies of entries of the input, in the same or in another case,
  are added to it.
\<close>

theorem getCommonStudents_order_duplicates_case:
  "(mset ys = mset xs \<longrightarrow> getCommonStudents st ys = getCommonStudents st xs)
   \<and> ((\<forall>c\<in>set cs. \<exists>x\<in>set xs. toLowerCase c = toLowerCase x) \<longrightarrow>
        getCommonStudents st (xs @ cs) = getCommonStudents st xs)"
proof (intro conjI impI)
  assume m: "mset ys = mset xs"
  then have "set ys = set xs" by (rule mset_eq_setD)
  moreover from m have "(ys = []) = (xs = [])" by (metis mset_zero_iff)
  ultimately show "getCommonStudents st ys = getCommonStudents st xs"
    by (intro getCommonStudents_cong) simp_all
next
  assume c: "\<forall>c\<in>set cs. \<exists>x\<in>set xs. toLowerCase c = toLowerCase x"
  then have "xs = [] \<Longrightarrow> cs = []" by (cases cs) auto
  then have "(xs @ cs = []) = (xs = [])" by auto
  then show "getCommonStudents st (xs @ cs) = getCommonStudents st xs"
    using normalized_valid_same_case[OF c] by (rule getCommonStudents_cong)
qed

theorem getCommonStudents_order_duplicates_case_witness:
  "mset [''u@x.y'', ''t@x.y''] = mset [''t@x.y'', ''u@x.y'']
   \<and> getCommonStudents example_store [''u@x.y'', ''t@x.y''] = Inr [''a@b.c'']
   \<and> toLowerCase ''T@X.Y'' = toLowerCase ''t@x.y''
   \<and> getCommonStudents example_store ([''t@x.y'', ''u@x.y''] @ [''T@X.Y'', ''u@x.y'']) = Inr [''a@b.c'']"
proof -
  have p: "mset [''u@x.y'', ''t@x.y''] = mset [''t@x.y'', ''u@x.y'']" by (simp add: add.commute)
  have l: "toLowerCase ''T@X.Y'' = toLowerCase ''t@x.y''" by code_simp
  then have c: "\<forall>c\<in>set [''T@X.Y'', ''u@x.y'']. \<exists>x\<in>set [''t@x.y'', ''u@x.y'']. toLowerCase c = toLowerCase x"
    by simp
  have r: "getCommonStudents example_store [''t@x.y'', ''u@x.y''] = Inr [''a@b.c'']" by code_simp
  note t = getCommonStudents_order_duplicates_case[of "[''u@x.y'', ''t@x.y'']" "[''t@x.y'', ''u@x.y'']"
      example_store "[''T@X.Y'', ''u@x.y'']"]
  from t p have "getCommonStudents example_store [''u@x.y'', ''t@x.y'']
                   = getCommonStudents example_store [''t@x.y'', ''u@x.y'']"
    by blast
  with r have 1: "getCommonStudents example_store [''u@x.y'', ''t@x.y''] = Inr [''a@b.c'']"
    by (simp only:)
  from t c have "getCommonStudents example_store ([''t@x.y'', ''u@x.y''] @ [''T@X.Y'', ''u@x.y''])
                   = getCommonStudents example_store [''t@x.y'', ''u@x.y'']"
    by blast
  with r have 2: "getCommonStudents example_store ([''t@x.y'', ''u@x.y''] @ [''T@X.Y'', ''u@x.y'']) = Inr [''a@b.c'']"
    by (simp only:)
  from p l 1 2 show ?thesis by blast
qed

text \<open>
  C10. \<open>getNotificationRecipients\<close> returns a list for every teacher email. The look-up of
  the registered students raises \<open>BadRequestException\<close> for an email that fails validation
  and \<open>NotFoundException\<close> for one without a teacher row; whichever error it raises, the
  result is the sorted, deduplicated list of the emails of the mentioned students that
  exist and are not suspended.
\<close>

theorem getNotificationRecipients_never_fails:
  "(\<exists>r. getNotificationRecipients st t n = Inr r)
   \<and> (\<not> isValidEmail (normalizeEmail t) \<longrightarrow>
        getTeacherStudents st (normalizeEmail t) = Inl (BadRequestException INVALID_EMAIL_FORMAT))
   \<and> (isValidEmail (normalizeEmail t) \<and> normalizeEmail t \<notin> snd ` set (teacher_table st) \<longrightarrow>
        getTeacherStudents st (normalizeEmail t) = Inl (NotFoundException TEACHER_NOT_FOUND))
   \<and> (\<forall>e. getTeacherStudents st (normalizeEmail t) = Inl e \<longrightarrow>
        (\<exists>r. getNotificationRecipients st t n = Inr r
           \<and> r = js_sort (set_spread (map email (getStudentsByEmails st (extractMentionedEmails n) False)))
           \<and> set r = email ` {s \<in> set (student_table st). \<not> suspended s
                                 \<and> email s \<in> normalizeEmail ` set (extractMentionedEmails n)}))"
proof (intro conjI impI allI)
  show "\<exists>r. getNotificationRecipients st t n = Inr r"
    by (simp add: getNotificationRecipients_def Let_def)
next
  assume "\<not> isValidEmail (normalizeEmail t)"
  then show "getTeacherStudents st (normalizeEmail t) = Inl (BadRequestException INVALID_EMAIL_FORMAT)"
    by (simp add: getTeacherStudents_def findTeacherByEmail_def Let_def)
next
  assume a: "isValidEmail (normalizeEmail t) \<and> normalizeEmail t \<notin> snd ` set (teacher_table st)"
  then have "filter (\<lambda>row. snd row = normalizeEmail t) (teacher_table st) = []"
    by (force simp: filter_empty_conv)
  with a show "getTeacherStudents st (normalizeEmail t) = Inl (NotFoundException TEACHER_NOT_FOUND)"
    by (simp add: getTeacherStudents_def findTeacherByEmail_def Let_def teacher_findOne_def)
next
  fix e assume e: "getTeacherStudents st (normalizeEmail t) = Inl e"
  let ?r = "js_sort (set_spread (map email (getStudentsByEmails st (extractMentionedEmails n) False)))"
  have 1: "getNotificationRecipients st t n = Inr ?r"
    using e by (simp add: getNotificationRecipients_def Let_def)
  have "{m \<in> set (extractMentionedEmails n). isValidEmail m} = set (extractMentionedEmails n)"
    using extractMentionedEmails_valid by blast
  then have 2: "set ?r = email ` {s \<in> set (student_table st). \<not> suspended s
                                 \<and> email s \<in> normalizeEmail ` set (extractMentionedEmails n)}"
    by (simp add: set_getStudentsByEmails_active js_sort_def)
  from 1 2 show "\<exists>r. getNotificationRecipients st t n = Inr r \<and> r = ?r
           \<and> set r = email ` {s \<in> set (student_table st). \<not> suspended s
                                 \<and> email s \<in> normalizeEmail ` set (extractMentionedEmails n)}"
    by blast
qed

theorem getNotificationRecipients_never_fails_witness:
  "\<not> isValidEmail (normalizeEmail ''no email'')
   \<and> getTeacherStudents example_store (normalizeEmail ''no email'')
       = Inl (BadRequestException INVALID_EMAIL_FORMAT)
   \<and> getNotificationRecipients example_store ''no email'' ''Hi @A@b.c @z@b.c @q@r.s''
       = Inr [''a@b.c'']
   \<and> getTeacherStudents example_store (normalizeEmail ''Nobody@x.y'')
       = Inl (NotFoundException TEACHER_NOT_FOUND)
   \<and> getNotificationRecipients example_store ''Nobody@x.y'' ''Hi @A@b.c @z@b.c @q@r.s''
       = Inr [''a@b.c'']"
proof -
  let ?n = "''Hi @A@b.c @z@b.c @q@r.s''"
  have i: "\<not> isValidEmail (normalizeEmail ''no email'')" by code_simp
  have v: "isValidEmail (normalizeEmail ''Nobody@x.y'')
           \<and> normalizeEmail ''Nobody@x.y'' \<notin> snd ` set (teacher_table example_store)"
    by code_simp
  have m: "js_sort (set_spread (map email (getStudentsByEmails example_store
              (extractMentionedEmails ?n) False))) = [''a@b.c'']"
    by code_simp
  note a = getNotificationRecipients_never_fails[of example_store "''no email''" ?n]
  note b = getNotificationRecipients_never_fails[of example_store "''Nobody@x.y''" ?n]
  from a i have a1: "getTeacherStudents example_store (normalizeEmail ''no email'')
       = Inl (BadRequestException INVALID_EMAIL_FORMAT)" by blast
  with a m have a2: "getNotificationRecipients example_store ''no email'' ?n = Inr [''a@b.c'']"
    by metis
  from b v have b1: "getTeacherStudents example_store (normalizeEmail ''Nobody@x.y'')
       = Inl (NotFoundException TEACHER_NOT_FOUND)" by blast
  with b m have b2: "getNotificationRecipients example_store ''Nobody@x.y'' ?n = Inr [''a@b.c'']"
    by metis
  from i a1 a2 b1 b2 show ?thesis by blast
qed

end
